theory Spec2Isabelle
  imports Main
begin

section \<open>Bug Capturer: the step log of the background service worker\<close>

text \<open>
  The model follows \<^verbatim>\<open>src/background.js\<close>. JavaScript strings are \<open>string\<close>; a
  property that may be \<^verbatim>\<open>undefined\<close> is an \<open>option\<close> (\<open>None\<close> is
  \<^verbatim>\<open>undefined\<close>), so that \<^verbatim>\<open>===\<close> on two such properties is HOL equality.
  Timestamps are the integers of \<^verbatim>\<open>Date.now()\<close>.
\<close>

subsection \<open>Steps\<close>

record meta =
  meta_action :: "string option"
  meta_value :: "string option"

record step =
  step_type :: string
  step_time :: int
  step_url :: "string option"
  step_selector :: "string option"
  step_text :: "string option"
  step_meta :: "meta option"
  step_dataURL :: "string option"

text \<open>\<^verbatim>\<open>step.meta?.action\<close> and \<^verbatim>\<open>step.meta?.value\<close>: optional chaining gives
  \<^verbatim>\<open>undefined\<close> when \<^verbatim>\<open>meta\<close> is missing.\<close>

definition action_of :: "step \<Rightarrow> string option" where
  "action_of s = (case step_meta s of None \<Rightarrow> None | Some m \<Rightarrow> meta_action m)"

definition value_of :: "step \<Rightarrow> string option" where
  "value_of s = (case step_meta s of None \<Rightarrow> None | Some m \<Rightarrow> meta_value m)"

definition STORAGE_KEY :: string where
  "STORAGE_KEY = ''bc_steps_master''"

definition MAX_STORAGE_SIZE :: nat where
  "MAX_STORAGE_SIZE = 50 * 1024 * 1024"

definition MAX_STEPS :: nat where
  "MAX_STEPS = 1000"

subsection \<open>The platform: \<^verbatim>\<open>chrome.storage.local\<close>\<close>

text \<open>
  The world holds the value stored under \<open>STORAGE_KEY\<close> (\<open>None\<close>: the key is absent),
  the outcomes of the storage calls still to come (\<open>None\<close>: the call succeeds,
  \<open>Some msg\<close>: it throws an \<^verbatim>\<open>Error\<close> with that message; when the list is used up
  every call succeeds), and the trace of the storage calls made so far.
\<close>

datatype call = StorageGet | StorageSet "step list" | StorageRemove

record world =
  stored :: "step list option"
  faults :: "string option list"
  calls :: "call list"

definition next_fault :: "world \<Rightarrow> string option \<times> world" where
  "next_fault w = (case faults w of [] \<Rightarrow> (None, w) | f # fs \<Rightarrow> (f, w\<lparr>faults := fs\<rparr>))"

definition storage_get :: "world \<Rightarrow> (string + step list) \<times> world" where
  "storage_get w =
     (case next_fault w of (f, w1) \<Rightarrow>
        let w2 = w1\<lparr>calls := calls w1 @ [StorageGet]\<rparr> in
        (case f of
           Some msg \<Rightarrow> (Inl msg, w2)
         | None \<Rightarrow> (Inr (case stored w2 of None \<Rightarrow> [] | Some xs \<Rightarrow> xs), w2)))"

definition storage_set :: "step list \<Rightarrow> world \<Rightarrow> string option \<times> world" where
  "storage_set xs w =
     (case next_fault w of (f, w1) \<Rightarrow>
        let w2 = w1\<lparr>calls := calls w1 @ [StorageSet xs]\<rparr> in
        (case f of
           Some msg \<Rightarrow> (Some msg, w2)
         | None \<Rightarrow> (None, w2\<lparr>stored := Some xs\<rparr>)))"

definition storage_remove :: "world \<Rightarrow> string option \<times> world" where
  "storage_remove w =
     (case next_fault w of (f, w1) \<Rightarrow>
        let w2 = w1\<lparr>calls := calls w1 @ [StorageRemove]\<rparr> in
        (case f of
           Some msg \<Rightarrow> (Some msg, w2)
         | None \<Rightarrow> (None, w2\<lparr>stored := None\<rparr>)))"

text \<open>JavaScript's \<^verbatim>\<open>String.prototype.includes\<close>.\<close>

fun str_includes :: "string \<Rightarrow> string \<Rightarrow> bool" where
  "str_includes [] sub = (sub = [])"
| "str_includes (c # cs) sub = (take (length sub) (c # cs) = sub \<or> str_includes cs sub)"

subsection \<open>\<^verbatim>\<open>clearSteps\<close> and \<^verbatim>\<open>storeSteps\<close>\<close>

text \<open>The result objects \<^verbatim>\<open>{ ok: true }\<close> and \<^verbatim>\<open>{ ok: false, error: msg }\<close>.\<close>

datatype result = Ok | Failed string

definition clearSteps :: "world \<Rightarrow> result \<times> world" where
  "clearSteps w =
     (case storage_remove w of
        (None, w1) \<Rightarrow> (Ok, w1)
      | (Some msg, w1) \<Rightarrow> (Failed msg, w1))"

text \<open>
  The loop of \<^verbatim>\<open>storeSteps\<close> that drops the oldest tenth until the serialised log fits.
  \<open>jsonLength\<close> stands for \<^verbatim>\<open>JSON.stringify(steps).length\<close>, a function of the platform.
  \<^verbatim>\<open>Math.floor(n * 0.1)\<close> is \<open>n div 10\<close> on array lengths.
\<close>

function trimToSize :: "(step list \<Rightarrow> nat) \<Rightarrow> step list \<Rightarrow> step list" where
  "trimToSize jsonLength trimmedSteps =
     (if jsonLength trimmedSteps > MAX_STORAGE_SIZE \<and> length trimmedSteps > 10
      then trimToSize jsonLength (drop (length trimmedSteps div 10) trimmedSteps)
      else trimmedSteps)"
  by pat_completeness auto
termination
  by (relation "measure (\<lambda>(j, xs). length xs)") auto

declare trimToSize.simps [simp del]

definition storeSteps :: "(step list \<Rightarrow> nat) \<Rightarrow> step list \<Rightarrow> world \<Rightarrow> result \<times> world" where
  "storeSteps jsonLength steps w =
     (let steps1 = (if jsonLength steps > MAX_STORAGE_SIZE
                    then trimToSize jsonLength steps else steps)
      in case storage_set steps1 w of
           (None, w1) \<Rightarrow> (Ok, w1)
         | (Some msg, w1) \<Rightarrow>
             (if msg \<noteq> [] \<and> str_includes msg ''QUOTA_EXCEEDED''
              then (Failed msg, snd (clearSteps w1))
              else (Failed msg, w1)))"

subsection \<open>\<^verbatim>\<open>getStoredSteps\<close>\<close>

definition getStoredSteps :: "(step list \<Rightarrow> nat) \<Rightarrow> world \<Rightarrow> step list \<times> world" where
  "getStoredSteps jsonLength w =
     (case storage_get w of
        (Inl msg, w1) \<Rightarrow> ([], w1)
      | (Inr steps, w1) \<Rightarrow>
          (if length steps > MAX_STEPS
           then (let trimmedSteps = drop (length steps - MAX_STEPS) steps
                 in (trimmedSteps, snd (storeSteps jsonLength trimmedSteps w1)))
           else (steps, w1)))"

subsection \<open>The platform: fetch, bitmaps, canvases and \<^verbatim>\<open>FileReader\<close>\<close>

text \<open>
  The imaging calls of one \<^verbatim>\<open>compressScreenshot\<close> or \<^verbatim>\<open>cropScreenshotToArea\<close> run:
  \<open>throws\<close> tells which call throws (or rejects) and with which message,
  \<open>heap_high\<close> is \<^verbatim>\<open>performance.memory && performance.memory.usedJSHeapSize > 200MB\<close>,
  \<open>response_ok\<close> is \<^verbatim>\<open>response.ok\<close>, the bitmap has the given width and height,
  \<open>context_null\<close> says that \<^verbatim>\<open>getContext('2d')\<close> returns null, \<open>blob_size\<close> is the
  size of the encoded blob, and \<open>reader_result\<close> is what \<^verbatim>\<open>FileReader\<close> delivers
  (\<open>None\<close>: its \<^verbatim>\<open>onerror\<close> fires).
\<close>

datatype stage = Fetch | Blob | Bitmap | Canvas | Draw | Encode

record imaging =
  heap_high :: bool
  throws :: "stage \<Rightarrow> string option"
  response_ok :: bool
  bitmap_width :: int
  bitmap_height :: int
  context_null :: bool
  blob_size :: nat
  reader_result :: "string option"

fun first_throw :: "imaging \<Rightarrow> stage list \<Rightarrow> string option" where
  "first_throw env [] = None"
| "first_throw env (st # sts) =
     (case throws env st of Some msg \<Rightarrow> Some msg | None \<Rightarrow> first_throw env sts)"

text \<open>
  How the body of a \<^verbatim>\<open>try\<close> block of an async function ends: it returns a value, it
  throws (an awaited promise that rejects throws at the \<^verbatim>\<open>await\<close>), or it returns a
  promise that it does not await. A promise returned without \<^verbatim>\<open>await\<close> settles after the
  \<^verbatim>\<open>try\<close> block is left, so its rejection does not reach the \<^verbatim>\<open>catch\<close> clause: it
  rejects the promise of the async function itself.
\<close>

datatype 'a settled = Fulfilled 'a | Rejected string

datatype 'a completion = Returned 'a | Thrown string | ReturnedPromise "'a settled"

subsection \<open>\<^verbatim>\<open>compressScreenshot\<close>\<close>

text \<open>
  \<^verbatim>\<open>dataURL.length * 0.75 > 50 * 1024 * 1024\<close> is written with integers. The new width,
  height and quality are floating-point computations that decide no branch; the model leaves
  them out, and the re-encoded image is what the platform's \<open>reader_result\<close> says.
\<close>

definition compress_try :: "imaging \<Rightarrow> string \<Rightarrow> string completion" where
  "compress_try env dataURL =
     (if heap_high env then Returned dataURL
      else if 3 * length dataURL > 4 * (50 * 1024 * 1024) then Returned dataURL
      else (case first_throw env [Fetch, Blob, Bitmap, Canvas] of
              Some msg \<Rightarrow> Thrown msg
            | None \<Rightarrow>
                if context_null env then Thrown ''Failed to get 2D context for compression''
                else (case first_throw env [Draw, Encode] of
                        Some msg \<Rightarrow> Thrown msg
                      | None \<Rightarrow>
                          ReturnedPromise
                            (case reader_result env of
                               Some r \<Rightarrow> Fulfilled r
                             | None \<Rightarrow>
                                 Rejected ''Failed to convert compressed image to data URL''))))"

text \<open>The result is \<open>Inr\<close> the data URL the caller receives, or \<open>Inl\<close> the error that
  reaches the caller.\<close>

definition compressScreenshot :: "imaging \<Rightarrow> string \<Rightarrow> string + string" where
  "compressScreenshot env dataURL =
     (case compress_try env dataURL of
        Returned v \<Rightarrow> Inr v
      | Thrown msg \<Rightarrow> Inr dataURL
      | ReturnedPromise (Fulfilled v) \<Rightarrow> Inr v
      | ReturnedPromise (Rejected msg) \<Rightarrow> Inl msg)"

subsection \<open>\<^verbatim>\<open>addStep\<close>\<close>

text \<open>The callback of \<^verbatim>\<open>steps.some\<close>, with its branches in the order of the source.\<close>

definition duplicate_of :: "step \<Rightarrow> step \<Rightarrow> bool" where
  "duplicate_of newStep s =
     (let timeDiff = \<bar>step_time s - step_time newStep\<bar> in
      if timeDiff \<le> 100 \<and> step_selector s = step_selector newStep
           \<and> step_text s = step_text newStep
           \<and> action_of s = action_of newStep
           \<and> value_of s = value_of newStep then True
      else if timeDiff \<le> 25 \<and> step_selector s = step_selector newStep
           \<and> action_of s = action_of newStep
           \<and> action_of s = Some ''click'' then True
      else if action_of s = Some ''submit'' \<and> action_of newStep = Some ''submit'' then False
      else if step_type s = ''screenshot'' \<and> step_type newStep = ''screenshot'' then False
      else False)"

definition isDuplicate :: "step list \<Rightarrow> step \<Rightarrow> bool" where
  "isDuplicate steps newStep = list_ex (duplicate_of newStep) steps"

text \<open>The block that compresses \<^verbatim>\<open>newStep.dataURL\<close>, deleting it when the compressor
  fails.\<close>

definition compressStepImage :: "imaging \<Rightarrow> step \<Rightarrow> step" where
  "compressStepImage env newStep =
     (case step_dataURL newStep of
        None \<Rightarrow> newStep
      | Some d \<Rightarrow>
          if d = [] then newStep
          else (case compressScreenshot env d of
                  Inr d' \<Rightarrow> newStep\<lparr>step_dataURL := Some d'\<rparr>
                | Inl msg \<Rightarrow> newStep\<lparr>step_dataURL := None\<rparr>))"

definition addStep ::
  "(step list \<Rightarrow> nat) \<Rightarrow> imaging \<Rightarrow> step \<Rightarrow> world \<Rightarrow> result \<times> world" where
  "addStep jsonLength env newStep w =
     (case getStoredSteps jsonLength w of (steps, w1) \<Rightarrow>
        let steps1 = (if length steps \<ge> MAX_STEPS then tl steps else steps);
            newStep1 = compressStepImage env newStep;
            steps2 = (if \<not> isDuplicate steps1 newStep1
                      then (let pushed = steps1 @ [newStep1]
                            in if length pushed > 1000
                               then drop (length pushed - 1000) pushed else pushed)
                      else steps1)
        in storeSteps jsonLength steps2 w1)"

subsection \<open>\<^verbatim>\<open>cropScreenshotToArea\<close>\<close>

text \<open>
  The coordinates of an area are the integers the selection overlay sends. A crop ends with
  one of the errors below (each a \<^verbatim>\<open>throw\<close> of the source, rethrown by its
  \<^verbatim>\<open>catch\<close>), or with the rectangle that was drawn and the data URL of the cropped image.
\<close>

record area =
  area_x :: int
  area_y :: int
  area_width :: int
  area_height :: int

datatype crop_error =
    InvalidDataURL
  | InvalidArea
  | FetchNotOk
  | PlatformError string
  | InvalidCanvasDimensions area
  | NoContext
  | EmptyImage
  | ReaderFailed

definition clampArea :: "area \<Rightarrow> int \<Rightarrow> int \<Rightarrow> area" where
  "clampArea a imgW imgH =
     (let x = max 0 (min (area_x a) (imgW - 1));
          y = max 0 (min (area_y a) (imgH - 1));
          width = max 1 (min (area_width a) (imgW - max 0 (area_x a)));
          height = max 1 (min (area_height a) (imgH - max 0 (area_y a)));
          width1 = (if x + width > imgW then imgW - x else width);
          height1 = (if y + height > imgH then imgH - y else height)
      in \<lparr>area_x = x, area_y = y, area_width = max 1 width1, area_height = max 1 height1\<rparr>)"

definition cropScreenshotToArea ::
  "imaging \<Rightarrow> string \<Rightarrow> area option \<Rightarrow> crop_error + (area \<times> string)" where
  "cropScreenshotToArea env dataURL area =
     (if dataURL = [] then Inl InvalidDataURL
      else (case area of
        None \<Rightarrow> Inl InvalidArea
      | Some a \<Rightarrow>
          if area_x a = 0 \<or> area_y a = 0 \<or> area_width a = 0 \<or> area_height a = 0
          then Inl InvalidArea
          else (case first_throw env [Fetch] of
            Some msg \<Rightarrow> Inl (PlatformError msg)
          | None \<Rightarrow>
              if \<not> response_ok env then Inl FetchNotOk
              else (case first_throw env [Blob, Bitmap] of
                Some msg \<Rightarrow> Inl (PlatformError msg)
              | None \<Rightarrow>
                  let c = clampArea a (bitmap_width env) (bitmap_height env) in
                  if area_width c \<le> 0 \<or> area_height c \<le> 0
                       \<or> area_width c > 10000 \<or> area_height c > 10000
                  then Inl (InvalidCanvasDimensions c)
                  else (case first_throw env [Canvas] of
                    Some msg \<Rightarrow> Inl (PlatformError msg)
                  | None \<Rightarrow>
                      if context_null env then Inl NoContext
                      else (case first_throw env [Draw, Encode] of
                        Some msg \<Rightarrow> Inl (PlatformError msg)
                      | None \<Rightarrow>
                          if blob_size env = 0 then Inl EmptyImage
                          else (case reader_result env of
                                  None \<Rightarrow> Inl ReaderFailed
                                | Some r \<Rightarrow> Inr (c, r))))))))"

section \<open>The content script: redaction\<close>

text \<open>
  Characters are the code units below 256 (Latin-1). \<^verbatim>\<open>toLowerCase\<close> lowers the
  capitals among them: \<^verbatim>\<open>A\<close> to \<^verbatim>\<open>Z\<close> (65 to 90) and the accented capitals
  192 to 214 and 216 to 222, each by adding 32. The keywords of
  \<^verbatim>\<open>SENSITIVE_PATTERNS\<close> are lower-case ASCII and only an ASCII letter matches an ASCII
  letter under the flag \<^verbatim>\<open>i\<close>, so the case-insensitive test is a substring test on
  the lower-cased name.
\<close>

definition toLowerCase :: "string \<Rightarrow> string" where
  "toLowerCase s =
     map (\<lambda>c. let n = (of_char c :: nat)
              in if (65 \<le> n \<and> n \<le> 90) \<or> (192 \<le> n \<and> n \<le> 214) \<or> (216 \<le> n \<and> n \<le> 222)
                 then char_of (n + 32) else c) s"

definition SENSITIVE_KEYWORDS :: "string list" where
  "SENSITIVE_KEYWORDS =
     [''password'', ''pwd'', ''secret'', ''token'', ''key'', ''ssn'', ''creditcard'',
      ''credit-card'', ''cardnumber'', ''card-number'']"

definition SENSITIVE_PATTERNS_test :: "string \<Rightarrow> bool" where
  "SENSITIVE_PATTERNS_test name = list_ex (str_includes (toLowerCase name)) SENSITIVE_KEYWORDS"

definition MAX_INPUT_LENGTH :: nat where
  "MAX_INPUT_LENGTH = 100"

definition isWhiteSpace :: "char \<Rightarrow> bool" where
  "isWhiteSpace c = ((of_char c :: nat) \<in> {9, 10, 11, 12, 13, 32, 160})"

definition trim :: "string \<Rightarrow> string" where
  "trim s = rev (dropWhile isWhiteSpace (rev (dropWhile isWhiteSpace s)))"

text \<open>\<^verbatim>\<open>a || b\<close> on strings, the empty string being falsy; a missing property of an
  element is the empty string.\<close>

definition or_else :: "string \<Rightarrow> string \<Rightarrow> string" where
  "or_else a b = (if a = [] then b else a)"

record element =
  el_name :: string
  el_id :: string
  el_placeholder :: string
  el_type :: string
  el_tagName :: string
  el_value :: string
  el_innerText :: string
  el_textContent :: string
  el_alt :: string
  el_title :: string

definition getSafeText :: "element option \<Rightarrow> string option \<Rightarrow> string" where
  "getSafeText element val =
     (case element of
        None \<Rightarrow> []
      | Some el \<Rightarrow>
          let v = (case val of None \<Rightarrow> [] | Some x \<Rightarrow> x);
              text = or_else v (or_else (el_value el) (or_else (el_innerText el)
                       (or_else (el_textContent el) (or_else (el_alt el) (el_title el)))));
              name = or_else (el_name el) (or_else (el_id el)
                       (or_else (el_placeholder el) (el_type el)))
          in if SENSITIVE_PATTERNS_test name then ''[REDACTED]''
             else if el_tagName el \<in> {''INPUT'', ''SELECT'', ''TEXTAREA''}
             then (let identifier = or_else (el_placeholder el) (or_else (el_name el)
                                      (or_else (el_id el) (or_else (el_type el) ''field'')))
                   in if v \<noteq> [] \<and> trim v \<noteq> []
                      then identifier @ '': '' @
                             (if length v > MAX_INPUT_LENGTH then take 77 v @ ''...'' else v)
                      else identifier)
             else if length text > MAX_INPUT_LENGTH then take 97 text @ ''...''
             else take 200 (trim text))"


section \<open>Rendering the step list\<close>

subsection \<open>The popup: \<^verbatim>\<open>renderSteps\<close>\<close>

definition popup_shows :: "step \<Rightarrow> bool" where
  "popup_shows s =
     (step_type s \<noteq> ''console'' \<and> step_type s \<noteq> ''performance''
      \<and> action_of s \<noteq> Some ''focus'' \<and> action_of s \<noteq> Some ''blur'')"

text \<open>The callback of the text filter. Reading \<^verbatim>\<open>toLowerCase\<close> of a missing
  \<^verbatim>\<open>url\<close>, \<^verbatim>\<open>text\<close> or \<^verbatim>\<open>selector\<close> throws a \<^verbatim>\<open>TypeError\<close>; the
  disjunction stops at its first true operand.\<close>

definition filter_matches :: "string \<Rightarrow> step \<Rightarrow> string + bool" where
  "filter_matches flt s =
     (let f = toLowerCase flt in
      case step_url s of
        None \<Rightarrow> Inl ''TypeError''
      | Some u \<Rightarrow>
          if str_includes (toLowerCase u) f then Inr True
          else (case step_text s of
            None \<Rightarrow> Inl ''TypeError''
          | Some t \<Rightarrow>
              if str_includes (toLowerCase t) f then Inr True
              else (case step_selector s of
                None \<Rightarrow> Inl ''TypeError''
              | Some sel \<Rightarrow>
                  if str_includes (toLowerCase sel) f then Inr True
                  else Inr (str_includes
                              (toLowerCase (case action_of s of None \<Rightarrow> [] | Some a \<Rightarrow> a)) f))))"

fun text_filter :: "string \<Rightarrow> step list \<Rightarrow> string + step list" where
  "text_filter flt [] = Inr []"
| "text_filter flt (s # ss) =
     (case filter_matches flt s of
        Inl e \<Rightarrow> Inl e
      | Inr keep \<Rightarrow>
          (case text_filter flt ss of
             Inl e \<Rightarrow> Inl e
           | Inr rest \<Rightarrow> Inr (if keep then s # rest else rest)))"

text \<open>
  The result lists the step items put into the steps container, each with its ordinal
  \<^verbatim>\<open>index + 1\<close> and the step that \<^verbatim>\<open>formatStepDirectly\<close> describes; the empty list
  is the "no steps" message.
\<close>

definition renderSteps :: "step list \<Rightarrow> string \<Rightarrow> string + (nat \<times> step) list" where
  "renderSteps steps flt =
     (let filteredSteps = filter popup_shows steps in
      case (if flt \<noteq> [] then text_filter flt filteredSteps else Inr filteredSteps) of
        Inl e \<Rightarrow> Inl e
      | Inr shown \<Rightarrow> Inr (enumerate 1 shown))"

subsection \<open>The RTF report: the "Steps to Reproduce" of \<^verbatim>\<open>generateRTFReport\<close>\<close>

definition dq :: string where
  "dq = [CHR 0x22]"

definition rtf_shows :: "step \<Rightarrow> bool" where
  "rtf_shows s = (step_type s \<noteq> ''console'' \<and> step_type s \<noteq> ''performance'')"

definition opt_or :: "string option \<Rightarrow> string \<Rightarrow> string" where
  "opt_or a b = (case a of None \<Rightarrow> b | Some x \<Rightarrow> or_else x b)"

text \<open>The body of the \<^verbatim>\<open>forEach\<close>: the description of one step, \<open>None\<close> for a
  screenshot step, which is skipped.\<close>

definition rtfStepDescription :: "step \<Rightarrow> string option" where
  "rtfStepDescription s =
     (let action = opt_or (action_of s) (or_else (step_type s) ''action'');
          target = opt_or (step_text s) (opt_or (step_selector s) ''element'');
          entered = opt_or (value_of s) (opt_or (step_text s) [])
      in if action = ''click'' then Some (''User clicked on '' @ target @ ''.'')
         else if action = ''input''
           then Some (''User entered '' @ dq @ entered @ dq @ '' in '' @ target @ ''.'')
         else if action = ''select''
           then Some (''User selected '' @ dq @ entered @ dq @ '' from '' @ target @ ''.'')
         else if action = ''focus'' then Some (''User focused on '' @ target @ ''.'')
         else if action = ''blur'' then Some (''User left '' @ target @ ''.'')
         else if action = ''submit'' then Some ''User submitted the form.''
         else if action = ''navigation''
           then Some (''User performed navigation on '' @ target @ ''.'')
         else if action = ''keypress''
           then Some (''User pressed '' @ opt_or (step_text s) ''a key'' @ ''.'')
         else if action = ''change'' then Some (''User performed change on '' @ target @ ''.'')
         else if action = ''toggle'' then Some (''User toggled '' @ target @ ''.'')
         else if action = ''screenshot'' then None
         else Some (''User performed '' @ action @ '' on '' @ target @ ''.''))"

text \<open>The numbered lines, each the ordinal \<^verbatim>\<open>index + 1\<close> and the description.\<close>

definition rtfStepLines :: "step list \<Rightarrow> (nat \<times> string) list" where
  "rtfStepLines steps =
     (let uiSteps = filter rtf_shows steps in
      List.map_filter (\<lambda>(n, s). map_option (Pair n) (rtfStepDescription s))
        (enumerate 1 uiSteps))"

text \<open>What sorting by timestamp at render time would show.\<close>

definition time_ordered :: "step list \<Rightarrow> bool" where
  "time_ordered steps = sorted (map step_time steps)"

section \<open>Sequences of appends\<close>




section \<open>Example data\<close>

text \<open>A platform on which no call fails, a world holding a given log, and sample steps
  as the content script and the screenshot commands build them.\<close>

definition calm :: imaging where
  "calm = \<lparr>heap_high = False, throws = (\<lambda>st. None), response_ok = True,
            bitmap_width = 1280, bitmap_height = 720, context_null = False,
            blob_size = 2048, reader_result = Some ''data:image/jpeg;base64,AAAA''\<rparr>"

definition world_with :: "step list \<Rightarrow> world" where
  "world_with log = \<lparr>stored = Some log, faults = [], calls = []\<rparr>"

definition click_step :: "string \<Rightarrow> int \<Rightarrow> step" where
  "click_step sel t =
     \<lparr>step_type = ''step'', step_time = t, step_url = Some ''https://example.test/'',
      step_selector = Some sel, step_text = Some ''Login'',
      step_meta = Some \<lparr>meta_action = Some ''click'', meta_value = None\<rparr>,
      step_dataURL = None\<rparr>"

definition submit_step :: "int \<Rightarrow> step" where
  "submit_step t =
     \<lparr>step_type = ''step'', step_time = t, step_url = Some ''https://example.test/'',
      step_selector = Some ''form#login'', step_text = Some ''Submitted the form'',
      step_meta = Some \<lparr>meta_action = Some ''submit'', meta_value = None\<rparr>,
      step_dataURL = None\<rparr>"

definition screenshot_step :: "int \<Rightarrow> step" where
  "screenshot_step t =
     \<lparr>step_type = ''screenshot'', step_time = t, step_url = Some ''https://example.test/'',
      step_selector = None, step_text = None,
      step_meta = Some \<lparr>meta_action = Some ''screenshot'', meta_value = None\<rparr>,
      step_dataURL = Some ''data:image/png;base64,iVBOR''\<rparr>"

definition full_log :: "step list" where
  "full_log = map (\<lambda>i. click_step ''#btn'' (1000 * int i)) [0..<1000]"




text \<open>A store holding one step whose next call fails for lack of quota; a platform whose
  \<^verbatim>\<open>FileReader\<close> fails; a screenshot as \<^verbatim>\<open>captureVisibleTab\<close> delivers it.\<close>

definition quota_world :: world where
  "quota_world = \<lparr>stored = Some [click_step ''#a'' 0], faults = [Some ''QUOTA_EXCEEDED''],
                   calls = []\<rparr>"

definition reader_fails :: imaging where
  "reader_fails = calm\<lparr>reader_result := None\<rparr>"

definition png_url :: string where
  "png_url = ''data:image/png;base64,iVBOR''"


definition city_field :: element where
  "city_field =
     \<lparr>el_name = ''city'', el_id = [], el_placeholder = [], el_type = ''text'',
      el_tagName = ''INPUT'', el_value = [], el_innerText = [], el_textContent = [],
      el_alt = [], el_title = []\<rparr>"

definition text_block :: "string \<Rightarrow> element" where
  "text_block t =
     \<lparr>el_name = [], el_id = [], el_placeholder = [], el_type = [],
      el_tagName = ''DIV'', el_value = [], el_innerText = t, el_textContent = t,
      el_alt = [], el_title = []\<rparr>"

definition press_step :: "string \<Rightarrow> int \<Rightarrow> step" where
  "press_step k t =
     \<lparr>step_type = ''step'', step_time = t, step_url = Some ''https://example.test/'',
      step_selector = Some ''#search'', step_text = Some k,
      step_meta = Some \<lparr>meta_action = Some ''keypress'', meta_value = None\<rparr>,
      step_dataURL = None\<rparr>"


section \<open>Properties\<close>

subsection \<open>Storage calls that succeed\<close>

lemma storage_get_quiet:
  "faults w = [] \<Longrightarrow>
   storage_get w = (Inr (case stored w of None \<Rightarrow> [] | Some xs \<Rightarrow> xs), w\<lparr>calls := calls w @ [StorageGet]\<rparr>)"
  by (simp add: storage_get_def next_fault_def)

lemma storage_set_quiet:
  "faults w = [] \<Longrightarrow>
   storage_set xs w = (None, w\<lparr>calls := calls w @ [StorageSet xs], stored := Some xs\<rparr>)"
  by (simp add: storage_set_def next_fault_def)

lemma storeSteps_quiet:
  "faults w = [] \<Longrightarrow> jsonLength xs \<le> MAX_STORAGE_SIZE \<Longrightarrow>
   storeSteps jsonLength xs w = (Ok, w\<lparr>calls := calls w @ [StorageSet xs], stored := Some xs\<rparr>)"
  by (simp add: storeSteps_def storage_set_quiet)

lemma getStoredSteps_quiet:
  "faults w = [] \<Longrightarrow> stored w = Some log \<Longrightarrow> length log \<le> MAX_STEPS \<Longrightarrow>
   getStoredSteps jsonLength w = (log, w\<lparr>calls := calls w @ [StorageGet]\<rparr>)"
  by (simp add: getStoredSteps_def storage_get_quiet)

lemma list_ex_duplicate:
  "isDuplicate steps n \<longleftrightarrow> (\<exists>s\<in>set steps. duplicate_of n s)"
  by (simp add: isDuplicate_def list_ex_iff)

lemma duplicate_of_iff:
  "duplicate_of n s \<longleftrightarrow>
     (\<bar>step_time s - step_time n\<bar> \<le> 100 \<and> step_selector s = step_selector n
        \<and> step_text s = step_text n \<and> action_of s = action_of n \<and> value_of s = value_of n)
     \<or> (\<bar>step_time s - step_time n\<bar> \<le> 25 \<and> step_selector s = step_selector n
        \<and> action_of s = Some ''click'' \<and> action_of n = Some ''click'')"
  by (auto simp: duplicate_of_def Let_def)

lemma addStep_quiet:
  fixes env newStep log jsonLength w
  assumes quiet: "faults w = []" and st: "stored w = Some log" and le: "length log \<le> MAX_STEPS"
  defines "kept \<equiv> (if length log \<ge> MAX_STEPS then tl log else log)"
  defines "n \<equiv> compressStepImage env newStep"
  defines "next \<equiv> (if isDuplicate kept n then kept else kept @ [n])"
  assumes fits: "jsonLength next \<le> MAX_STORAGE_SIZE"
  shows "addStep jsonLength env newStep w =
           (Ok, w\<lparr>calls := calls w @ [StorageGet, StorageSet next], stored := Some next\<rparr>)"
proof -
  let ?w1 = "w\<lparr>calls := calls w @ [StorageGet]\<rparr>"
  have g: "getStoredSteps jsonLength w = (log, ?w1)"
    using quiet st le by (rule getStoredSteps_quiet)
  have len: "length kept < MAX_STEPS"
    using le by (cases log) (auto simp: kept_def MAX_STEPS_def)
  then have short: "\<not> length (kept @ [n]) > 1000"
    by (simp add: MAX_STEPS_def)
  have a: "addStep jsonLength env newStep w = storeSteps jsonLength next ?w1"
    unfolding addStep_def g using short
    by (simp add: Let_def kept_def[symmetric] n_def[symmetric] next_def del: length_append)
  have "faults ?w1 = []" using quiet by simp
  then have "storeSteps jsonLength next ?w1 =
      (Ok, ?w1\<lparr>calls := calls ?w1 @ [StorageSet next], stored := Some next\<rparr>)"
    using fits by (rule storeSteps_quiet)
  then show ?thesis
    unfolding a by simp
qed

subsection \<open>Deduplication on append\<close>

lemma compressStepImage_fields [simp]:
  "step_type (compressStepImage env n) = step_type n"
  "step_time (compressStepImage env n) = step_time n"
  "step_url (compressStepImage env n) = step_url n"
  "step_selector (compressStepImage env n) = step_selector n"
  "step_text (compressStepImage env n) = step_text n"
  "step_meta (compressStepImage env n) = step_meta n"
  by (simp_all add: compressStepImage_def split: option.splits sum.splits)

lemma compressStepImage_action [simp]:
  "action_of (compressStepImage env n) = action_of n"
  "value_of (compressStepImage env n) = value_of n"
  by (simp_all add: action_of_def value_of_def)

lemma compressStepImage_no_image:
  "step_dataURL n = None \<Longrightarrow> compressStepImage env n = n"
  by (simp add: compressStepImage_def)

text \<open>
  Claim C1, as the code has it. When the storage calls succeed and the serialised log fits,
  \<^verbatim>\<open>addStep\<close> first drops the oldest step of a full log (\<open>MAX_STEPS\<close> entries) and
  then compares the new step with the steps that are left: the new step is suppressed if
  and only if one of those is within 100 ms with the same selector, text, action and
  metadata value, or within 25 ms with the same selector, both being clicks. Otherwise
  it is stored at the end. For a log of fewer than \<open>MAX_STEPS\<close> steps the steps compared
  are the whole log.
\<close>

theorem addStep_dedup:
  assumes "faults w = []" and "stored w = Some log" and "length log \<le> MAX_STEPS"
    and "kept = (if length log \<ge> MAX_STEPS then tl log else log)"
    and "n = compressStepImage env newStep"
    and "jsonLength kept \<le> MAX_STORAGE_SIZE"
    and "jsonLength (kept @ [n]) \<le> MAX_STORAGE_SIZE"
  shows "stored (snd (addStep jsonLength env newStep w)) =
           Some (if (\<exists>s\<in>set kept.
                       (\<bar>step_time s - step_time newStep\<bar> \<le> 100
                          \<and> step_selector s = step_selector newStep
                          \<and> step_text s = step_text newStep
                          \<and> action_of s = action_of newStep
                          \<and> value_of s = value_of newStep)
                     \<or> (\<bar>step_time s - step_time newStep\<bar> \<le> 25
                          \<and> step_selector s = step_selector newStep
                          \<and> action_of s = Some ''click''
                          \<and> action_of newStep = Some ''click''))
                 then kept else kept @ [n])"
proof -
  let ?next = "if isDuplicate kept n then kept else kept @ [n]"
  have fits: "jsonLength ?next \<le> MAX_STORAGE_SIZE"
    using assms(6,7) by simp
  have "addStep jsonLength env newStep w =
          (Ok, w\<lparr>calls := calls w @ [StorageGet, StorageSet ?next], stored := Some ?next\<rparr>)"
    using addStep_quiet[OF assms(1,2,3), of jsonLength env newStep] fits
    unfolding assms(4,5) by simp
  then have "stored (snd (addStep jsonLength env newStep w)) = Some ?next"
    by simp
  moreover have "isDuplicate kept n \<longleftrightarrow> (\<exists>s\<in>set kept.
                       (\<bar>step_time s - step_time newStep\<bar> \<le> 100
                          \<and> step_selector s = step_selector newStep
                          \<and> step_text s = step_text newStep
                          \<and> action_of s = action_of newStep
                          \<and> value_of s = value_of newStep)
                     \<or> (\<bar>step_time s - step_time newStep\<bar> \<le> 25
                          \<and> step_selector s = step_selector newStep
                          \<and> action_of s = Some ''click''
                          \<and> action_of newStep = Some ''click''))"
    unfolding list_ex_duplicate duplicate_of_iff assms(5) by simp
  ultimately show ?thesis by simp
qed

theorem addStep_dedup_witness:
  "faults (world_with [click_step ''#btn'' 0]) = []
   \<and> stored (world_with [click_step ''#btn'' 0]) = Some [click_step ''#btn'' 0]
   \<and> length [click_step ''#btn'' 0] \<le> MAX_STEPS
   \<and> length [click_step ''#btn'' 0] \<le> MAX_STORAGE_SIZE
   \<and> length ([click_step ''#btn'' 0] @ [click_step ''#btn'' 10]) \<le> MAX_STORAGE_SIZE
   \<and> stored (snd (addStep length calm (click_step ''#btn'' 10)
                   (world_with [click_step ''#btn'' 0])))
       = Some [click_step ''#btn'' 0]"
proof -
  have same: "click_step ''#btn'' 10 = compressStepImage calm (click_step ''#btn'' 10)"
    by (simp add: compressStepImage_def click_step_def)
  show ?thesis
    using addStep_dedup [of "world_with [click_step ''#btn'' 0]" "[click_step ''#btn'' 0]"
        "[click_step ''#btn'' 0]" "click_step ''#btn'' 10" calm "click_step ''#btn'' 10" length,
        OF _ _ _ _ same]
    by (simp add: world_with_def MAX_STEPS_def MAX_STORAGE_SIZE_def click_step_def
        action_of_def value_of_def)
qed

lemma not_dup_far:
  "\<bar>step_time s - step_time n\<bar> > 100 \<Longrightarrow> \<not> duplicate_of n s"
  by (simp add: duplicate_of_iff)

lemma tl_full_log_fresh: "\<not> isDuplicate (tl full_log) (click_step ''#btn'' 10)"
proof -
  have "tl full_log = map (\<lambda>i. click_step ''#btn'' (1000 * int i)) [1..<1000]"
    unfolding full_log_def map_tl[symmetric] tl_upt by simp
  then show ?thesis
    by (auto simp: list_ex_duplicate duplicate_of_iff click_step_def)
qed

text \<open>
  The claim as stated fails on a full log: the oldest step is evicted before the
  comparison, so a click that repeats it within 25 ms is stored although a step of the
  log matches both rules.
\<close>

theorem addStep_full_log_counterexample:
  "click_step ''#btn'' 0 \<in> set full_log
   \<and> \<bar>step_time (click_step ''#btn'' 0) - step_time (click_step ''#btn'' 10)\<bar> \<le> 25
   \<and> step_selector (click_step ''#btn'' 0) = step_selector (click_step ''#btn'' 10)
   \<and> action_of (click_step ''#btn'' 0) = Some ''click''
   \<and> action_of (click_step ''#btn'' 10) = Some ''click''
   \<and> stored (snd (addStep length calm (click_step ''#btn'' 10) (world_with full_log)))
       = Some (tl full_log @ [click_step ''#btn'' 10])"
proof -
  have len: "length full_log = 1000" by (simp add: full_log_def)
  have "click_step ''#btn'' (1000 * int 0) \<in> set full_log"
    unfolding full_log_def by (rule imageI[of 0 "set [0..<1000]", folded set_map]) simp
  then have mem: "click_step ''#btn'' 0 \<in> set full_log" by simp
  have same: "compressStepImage calm (click_step ''#btn'' 10) = click_step ''#btn'' 10"
    by (rule compressStepImage_no_image) (simp add: click_step_def)
  have "addStep length calm (click_step ''#btn'' 10) (world_with full_log) =
        (Ok, (world_with full_log)\<lparr>calls := calls (world_with full_log) @
             [StorageGet, StorageSet (tl full_log @ [click_step ''#btn'' 10])],
           stored := Some (tl full_log @ [click_step ''#btn'' 10])\<rparr>)"
    using addStep_quiet[of "world_with full_log" full_log length calm "click_step ''#btn'' 10"]
      tl_full_log_fresh
    by (simp add: same len MAX_STEPS_def MAX_STORAGE_SIZE_def world_with_def)
  then show ?thesis
    using mem by (simp add: click_step_def action_of_def)
qed

subsection \<open>Submit and screenshot steps\<close>

text \<open>
  Claim C2, as the code has it. The branches of the callback that name submit and screenshot
  steps come after the two duplicate tests and return what the callback returns anyway, so
  such a step is compared like any other. Since it is not a click, only the first test can
  hold. When the storage calls succeed, the stored log has at most \<open>MAX_STEPS\<close> steps and
  the serialised log fits the byte cap, a submit or screenshot step is suppressed if and
  only if a step left in the log (after the eviction of the oldest step of a full log) is
  within 100 ms with the same selector, text, action and metadata value, and it is stored at
  the end of the log otherwise.
\<close>

theorem addStep_submit_screenshot:
  assumes "faults w = []" and "stored w = Some log" and "length log \<le> MAX_STEPS"
    and "kept = (if length log \<ge> MAX_STEPS then tl log else log)"
    and "n = compressStepImage env newStep"
    and "jsonLength kept \<le> MAX_STORAGE_SIZE"
    and "jsonLength (kept @ [n]) \<le> MAX_STORAGE_SIZE"
    and "action_of newStep = Some ''submit''
         \<or> (step_type newStep = ''screenshot'' \<and> action_of newStep \<noteq> Some ''click'')"
  shows "stored (snd (addStep jsonLength env newStep w)) =
           Some (if (\<exists>s\<in>set kept.
                       \<bar>step_time s - step_time newStep\<bar> \<le> 100
                          \<and> step_selector s = step_selector newStep
                          \<and> step_text s = step_text newStep
                          \<and> action_of s = action_of newStep
                          \<and> value_of s = value_of newStep)
                 then kept else kept @ [n])"
proof -
  let ?next = "if isDuplicate kept n then kept else kept @ [n]"
  have fits: "jsonLength ?next \<le> MAX_STORAGE_SIZE"
    using assms(6,7) by simp
  have "addStep jsonLength env newStep w =
          (Ok, w\<lparr>calls := calls w @ [StorageGet, StorageSet ?next], stored := Some ?next\<rparr>)"
    using addStep_quiet[OF assms(1,2,3), of jsonLength env newStep] fits
    unfolding assms(4,5) by simp
  then have "stored (snd (addStep jsonLength env newStep w)) = Some ?next"
    by simp
  moreover have "action_of newStep \<noteq> Some ''click''"
    using assms(8) by auto
  then have "isDuplicate kept n \<longleftrightarrow> (\<exists>s\<in>set kept.
                       \<bar>step_time s - step_time newStep\<bar> \<le> 100
                          \<and> step_selector s = step_selector newStep
                          \<and> step_text s = step_text newStep
                          \<and> action_of s = action_of newStep
                          \<and> value_of s = value_of newStep)"
    unfolding list_ex_duplicate duplicate_of_iff assms(5) by simp
  ultimately show ?thesis by simp
qed

theorem addStep_submit_screenshot_witness:
  "faults (world_with [click_step ''#btn'' 0]) = []
   \<and> stored (world_with [click_step ''#btn'' 0]) = Some [click_step ''#btn'' 0]
   \<and> length [click_step ''#btn'' 0] \<le> MAX_STEPS
   \<and> length [click_step ''#btn'' 0] \<le> MAX_STORAGE_SIZE
   \<and> length ([click_step ''#btn'' 0] @ [submit_step 10]) \<le> MAX_STORAGE_SIZE
   \<and> action_of (submit_step 10) = Some ''submit''
   \<and> stored (snd (addStep length calm (submit_step 10) (world_with [click_step ''#btn'' 0])))
       = Some [click_step ''#btn'' 0, submit_step 10]"
proof -
  have same: "submit_step 10 = compressStepImage calm (submit_step 10)"
    by (simp add: compressStepImage_def submit_step_def)
  show ?thesis
    using addStep_submit_screenshot [of "world_with [click_step ''#btn'' 0]"
        "[click_step ''#btn'' 0]" "[click_step ''#btn'' 0]" "submit_step 10" calm
        "submit_step 10" length, OF _ _ _ _ same]
    by (simp add: world_with_def MAX_STEPS_def MAX_STORAGE_SIZE_def click_step_def
        submit_step_def action_of_def value_of_def)
qed

lemma compress_calm:
  "compressStepImage calm (screenshot_step t) =
     (screenshot_step t)\<lparr>step_dataURL := Some ''data:image/jpeg;base64,AAAA''\<rparr>"
  by (simp add: compressStepImage_def screenshot_step_def compressScreenshot_def
      compress_try_def calm_def)

text \<open>
  The claim as stated fails: a second submit of the same form 50 ms after the first, and a
  second screenshot 50 ms after the first (screenshot steps carry neither selector nor
  text), are both suppressed.
\<close>

theorem addStep_submit_screenshot_counterexample:
  "stored (snd (addStep length calm (submit_step 50) (world_with [submit_step 0])))
     = Some [submit_step 0]
   \<and> stored (snd (addStep length calm (screenshot_step 50) (world_with [screenshot_step 0])))
     = Some [screenshot_step 0]"
proof -
  have s1: "compressStepImage calm (submit_step 50) = submit_step 50"
    by (rule compressStepImage_no_image) (simp add: submit_step_def)
  have d1: "isDuplicate [submit_step 0] (submit_step 50)"
    by (simp add: isDuplicate_def duplicate_of_def submit_step_def action_of_def value_of_def)
  have d2: "isDuplicate [screenshot_step 0] (compressStepImage calm (screenshot_step 50))"
    by (simp add: isDuplicate_def duplicate_of_iff)
       (simp add: screenshot_step_def action_of_def value_of_def)
  have a1: "addStep length calm (submit_step 50) (world_with [submit_step 0]) =
        (Ok, (world_with [submit_step 0])\<lparr>calls := calls (world_with [submit_step 0]) @
             [StorageGet, StorageSet [submit_step 0]], stored := Some [submit_step 0]\<rparr>)"
    using addStep_quiet[of "world_with [submit_step 0]" "[submit_step 0]" length calm
        "submit_step 50"] d1
    by (simp add: s1 MAX_STEPS_def MAX_STORAGE_SIZE_def world_with_def)
  have a2: "addStep length calm (screenshot_step 50) (world_with [screenshot_step 0]) =
        (Ok, (world_with [screenshot_step 0])\<lparr>calls := calls (world_with [screenshot_step 0]) @
             [StorageGet, StorageSet [screenshot_step 0]], stored := Some [screenshot_step 0]\<rparr>)"
    using addStep_quiet[of "world_with [screenshot_step 0]" "[screenshot_step 0]" length calm
        "screenshot_step 50"] d2
    by (simp add: MAX_STEPS_def MAX_STORAGE_SIZE_def world_with_def)
  show ?thesis unfolding a1 a2 by simp
qed

subsection \<open>The count cap\<close>


lemma next_fault_stored: "stored (snd (next_fault w)) = stored w"
  by (cases "faults w") (simp_all add: next_fault_def)














lemma duplicate_of_compress [simp]:
  "duplicate_of (compressStepImage env n) s = duplicate_of n s"
  "duplicate_of n (compressStepImage env s) = duplicate_of n s"
  by (simp_all add: duplicate_of_iff)















subsection \<open>A write that fails\<close>

text \<open>
  Claim C4, as the code has it. When the write of \<^verbatim>\<open>storeSteps\<close> throws, the function
  makes no second write: it returns \<^verbatim>\<open>{ ok: false, error }\<close> with the message of the
  failure. When the message contains \<^verbatim>\<open>QUOTA_EXCEEDED\<close> it first calls
  \<^verbatim>\<open>clearSteps\<close> once, which removes the whole stored log (if that call succeeds);
  otherwise the store is left as it was.
\<close>

theorem storeSteps_failed_write:
  assumes "faults w = Some msg # rest"
    and "written = (if jsonLength steps > MAX_STORAGE_SIZE
                    then trimToSize jsonLength steps else steps)"
    and "quota = (msg \<noteq> [] \<and> str_includes msg ''QUOTA_EXCEEDED'')"
  shows "fst (storeSteps jsonLength steps w) = Failed msg
    \<and> calls (snd (storeSteps jsonLength steps w)) =
           calls w @ StorageSet written # (if quota then [StorageRemove] else [])
    \<and> stored (snd (storeSteps jsonLength steps w)) =
           (if quota \<and> (case rest of [] \<Rightarrow> True | f # fs \<Rightarrow> f = None) then None else stored w)"
proof -
  have s: "storage_set written w =
             (Some msg, w\<lparr>faults := rest, calls := calls w @ [StorageSet written]\<rparr>)"
    using assms(1) by (simp add: storage_set_def next_fault_def)
  have st: "storeSteps jsonLength steps w =
      (if quota then (Failed msg, snd (clearSteps (w\<lparr>faults := rest, calls := calls w @ [StorageSet written]\<rparr>)))
       else (Failed msg, w\<lparr>faults := rest, calls := calls w @ [StorageSet written]\<rparr>))"
    unfolding storeSteps_def assms(2)[symmetric] Let_def s assms(3) by simp
  have r1: "fst (storeSteps jsonLength steps w) = Failed msg"
    unfolding st by simp
  have r2: "calls (snd (storeSteps jsonLength steps w)) =
           calls w @ StorageSet written # (if quota then [StorageRemove] else [])"
    unfolding st
    by (cases rest; cases "hd rest")
       (simp_all add: clearSteps_def storage_remove_def next_fault_def)
  have r3: "stored (snd (storeSteps jsonLength steps w)) =
           (if quota \<and> (case rest of [] \<Rightarrow> True | f # fs \<Rightarrow> f = None) then None else stored w)"
    unfolding st
    by (cases rest; cases "hd rest")
       (simp_all add: clearSteps_def storage_remove_def next_fault_def)
  from r1 r2 r3 show ?thesis by blast
qed

theorem storeSteps_failed_write_witness:
  "faults quota_world = [Some ''QUOTA_EXCEEDED'']
   \<and> fst (storeSteps length [click_step ''#a'' 0, click_step ''#b'' 500] quota_world)
       = Failed ''QUOTA_EXCEEDED''
   \<and> calls (snd (storeSteps length [click_step ''#a'' 0, click_step ''#b'' 500] quota_world))
       = [StorageSet [click_step ''#a'' 0, click_step ''#b'' 500], StorageRemove]
   \<and> stored (snd (storeSteps length [click_step ''#a'' 0, click_step ''#b'' 500] quota_world))
       = None"
  using storeSteps_failed_write [of quota_world "''QUOTA_EXCEEDED''" "[]"
      "[click_step ''#a'' 0, click_step ''#b'' 500]" length
      "[click_step ''#a'' 0, click_step ''#b'' 500]" True]
  by (simp add: quota_world_def MAX_STORAGE_SIZE_def)

text \<open>
  The claim as stated fails: after a write that fails for lack of quota there is no second
  write, and the remediation removes the whole stored log, not a fraction of its oldest
  entries. The trace of storage calls is one \<^verbatim>\<open>set\<close> and one \<^verbatim>\<open>remove\<close>.
\<close>

theorem storeSteps_quota_counterexample:
  "storeSteps length [click_step ''#a'' 0, click_step ''#b'' 500] quota_world =
     (Failed ''QUOTA_EXCEEDED'',
      \<lparr>stored = None, faults = [],
       calls = [StorageSet [click_step ''#a'' 0, click_step ''#b'' 500], StorageRemove]\<rparr>)"
  by (simp add: storeSteps_def storage_set_def next_fault_def quota_world_def
      MAX_STORAGE_SIZE_def clearSteps_def storage_remove_def)

subsection \<open>The screenshot compressor\<close>

lemma compressScreenshot_skips_large:
  "3 * length dataURL > 4 * (50 * 1024 * 1024) \<Longrightarrow> compressScreenshot env dataURL = Inr dataURL"
  by (simp add: compressScreenshot_def compress_try_def)

lemma compressScreenshot_caught:
  "compress_try env dataURL = Thrown msg \<Longrightarrow> compressScreenshot env dataURL = Inr dataURL"
  by (simp add: compressScreenshot_def)

lemma compressScreenshot_stage_fails:
  "throws env st = Some msg \<Longrightarrow> compressScreenshot env dataURL = Inr dataURL"
  by (cases st)
     (auto simp: compressScreenshot_def compress_try_def
        split: option.splits completion.splits settled.splits)

text \<open>
  Claim C7 at the input where the code departs from it. The compressed blob is read back by
  a \<^verbatim>\<open>FileReader\<close> inside a promise that the \<^verbatim>\<open>try\<close> block returns without
  awaiting it. When the reader fails, the rejection is not caught: the caller of
  \<^verbatim>\<open>compressScreenshot\<close> receives the error, not the original image.
\<close>

theorem compressScreenshot_reader_failure:
  "compressScreenshot reader_fails png_url = Inl ''Failed to convert compressed image to data URL''"
  by (simp add: compressScreenshot_def compress_try_def reader_fails_def calm_def png_url_def)

subsection \<open>Cropping\<close>

text \<open>
  Claim C10. Whatever the platform and the image, a crop whose area has \<open>x = 0\<close> or
  \<open>y = 0\<close> is rejected before any platform call. For every data URL (indeed for every
  non-empty string) the error is "Invalid area coordinates provided for cropping": the
  validity check tests the coordinates for truthiness, and zero is falsy. Only for the
  empty string, which is no data URL, the earlier check of the data URL answers first.
\<close>

theorem crop_rejects_zero_origin:
  "area_x a = 0 \<or> area_y a = 0 \<Longrightarrow>
   cropScreenshotToArea env dataURL (Some a) =
     Inl (if dataURL = [] then InvalidDataURL else InvalidArea)"
  by (auto simp: cropScreenshotToArea_def)

theorem crop_rejects_zero_origin_witness:
  "area_x \<lparr>area_x = 0, area_y = 10, area_width = 100, area_height = 50\<rparr> = 0
   \<and> 0 + 100 \<le> bitmap_width calm \<and> 10 + 50 \<le> bitmap_height calm
   \<and> cropScreenshotToArea calm png_url
        (Some \<lparr>area_x = 0, area_y = 10, area_width = 100, area_height = 50\<rparr>) = Inl InvalidArea"
  using crop_rejects_zero_origin [of
      "\<lparr>area_x = 0, area_y = 10, area_width = 100, area_height = 50\<rparr>" calm png_url]
  by (simp add: png_url_def calm_def)

lemma clampArea_in_bounds:
  assumes "1 \<le> imgW" and "1 \<le> imgH" and "c = clampArea a imgW imgH"
  shows "0 \<le> area_x c \<and> 0 \<le> area_y c \<and> 1 \<le> area_width c \<and> 1 \<le> area_height c
       \<and> area_x c + area_width c \<le> imgW \<and> area_y c + area_height c \<le> imgH"
  using assms by (simp add: clampArea_def Let_def)

lemma clampArea_negative:
  assumes "1 \<le> imgW" and "1 \<le> imgH"
  shows "area_width a < 0 \<Longrightarrow> area_width (clampArea a imgW imgH) = 1"
    and "area_height a < 0 \<Longrightarrow> area_height (clampArea a imgW imgH) = 1"
  using assms by (simp_all add: clampArea_def Let_def)

lemma crop_result:
  "cropScreenshotToArea env dataURL (Some a) = Inr (c, r) \<Longrightarrow>
   c = clampArea a (bitmap_width env) (bitmap_height env)
   \<and> area_width c \<le> 10000 \<and> area_height c \<le> 10000"
  unfolding cropScreenshotToArea_def Let_def
  by (auto split: if_splits option.splits)


text \<open>
  Claim C6, as the code has it. A crop that succeeds drew the requested rectangle clamped
  into the image (of at least one pixel each way): the rectangle starts inside the image,
  is at least one pixel wide and high, ends inside the image, and is at most 10000 pixels
  each way. A request with a negative width or height is not rejected: that side is
  clamped to one pixel. A request with a zero width or height ends with the error
  "Invalid area coordinates provided for cropping".
\<close>

theorem crop_clamps_or_rejects:
  "(cropScreenshotToArea env dataURL (Some a) = Inr (c, r)
      \<and> 1 \<le> bitmap_width env \<and> 1 \<le> bitmap_height env
    \<longrightarrow> c = clampArea a (bitmap_width env) (bitmap_height env)
        \<and> 0 \<le> area_x c \<and> 0 \<le> area_y c \<and> 1 \<le> area_width c \<and> 1 \<le> area_height c
        \<and> area_x c + area_width c \<le> bitmap_width env
        \<and> area_y c + area_height c \<le> bitmap_height env
        \<and> area_width c \<le> 10000 \<and> area_height c \<le> 10000
        \<and> (area_width a < 0 \<longrightarrow> area_width c = 1)
        \<and> (area_height a < 0 \<longrightarrow> area_height c = 1))
   \<and> (dataURL' \<noteq> [] \<and> (area_width a' = 0 \<or> area_height a' = 0)
    \<longrightarrow> cropScreenshotToArea env' dataURL' (Some a') = Inl InvalidArea)"
proof (intro conjI impI)
  assume h: "cropScreenshotToArea env dataURL (Some a) = Inr (c, r)
      \<and> 1 \<le> bitmap_width env \<and> 1 \<le> bitmap_height env"
  then have cr: "c = clampArea a (bitmap_width env) (bitmap_height env)
      \<and> area_width c \<le> 10000 \<and> area_height c \<le> 10000"
    by (intro crop_result[of env dataURL a c r]) simp
  then have c: "c = clampArea a (bitmap_width env) (bitmap_height env)"
    and big: "area_width c \<le> 10000" "area_height c \<le> 10000"
    by blast+
  have b: "0 \<le> area_x c \<and> 0 \<le> area_y c \<and> 1 \<le> area_width c \<and> 1 \<le> area_height c
       \<and> area_x c + area_width c \<le> bitmap_width env
       \<and> area_y c + area_height c \<le> bitmap_height env"
    using h c by (intro clampArea_in_bounds) simp_all
  show "c = clampArea a (bitmap_width env) (bitmap_height env)" by (rule c)
  show "0 \<le> area_x c" "0 \<le> area_y c" "1 \<le> area_width c" "1 \<le> area_height c"
    "area_x c + area_width c \<le> bitmap_width env"
    "area_y c + area_height c \<le> bitmap_height env"
    using b by simp_all
  show "area_width c \<le> 10000" "area_height c \<le> 10000" by (rule big)+
  show "area_width c = 1" if "area_width a < 0"
    using that h clampArea_negative(1)[of "bitmap_width env" "bitmap_height env" a] c by simp
  show "area_height c = 1" if "area_height a < 0"
    using that h clampArea_negative(2)[of "bitmap_width env" "bitmap_height env" a] c by simp
next
  assume "dataURL' \<noteq> [] \<and> (area_width a' = 0 \<or> area_height a' = 0)"
  then show "cropScreenshotToArea env' dataURL' (Some a') = Inl InvalidArea"
    by (auto simp: cropScreenshotToArea_def)
qed

lemma crop_calm:
  assumes "area_x a \<noteq> 0" and "area_y a \<noteq> 0" and "area_width a \<noteq> 0" and "area_height a \<noteq> 0"
    and "clampArea a 1280 720 = c"
    and "area_width c \<le> 10000" and "area_height c \<le> 10000"
  shows "cropScreenshotToArea calm png_url (Some a) = Inr (c, ''data:image/jpeg;base64,AAAA'')"
proof -
  have "1 \<le> area_width c \<and> 1 \<le> area_height c"
    using clampArea_in_bounds[of 1280 720 c a] assms(5) by simp
  then have ok: "\<not> (area_width c \<le> 0 \<or> area_height c \<le> 0
                   \<or> area_width c > 10000 \<or> area_height c > 10000)"
    using assms(6,7) by simp
  have nz: "\<not> (area_x a = 0 \<or> area_y a = 0 \<or> area_width a = 0 \<or> area_height a = 0)"
    using assms(1-4) by simp
  have env: "bitmap_width calm = 1280" "bitmap_height calm = 720" "response_ok calm"
    "\<not> context_null calm" "blob_size calm \<noteq> 0"
    "reader_result calm = Some ''data:image/jpeg;base64,AAAA''"
    "\<And>st. throws calm st = None"
    "png_url \<noteq> []"
    by (simp_all add: calm_def png_url_def)
  show ?thesis
    using ok nz by (simp add: cropScreenshotToArea_def Let_def env assms(5))
qed

theorem crop_clamps_or_rejects_witness:
  "cropScreenshotToArea calm png_url
      (Some \<lparr>area_x = 1200, area_y = 700, area_width = 200, area_height = 100\<rparr>)
     = Inr (\<lparr>area_x = 1200, area_y = 700, area_width = 80, area_height = 20\<rparr>,
            ''data:image/jpeg;base64,AAAA'')
   \<and> 1 \<le> bitmap_width calm \<and> 1 \<le> bitmap_height calm
   \<and> 1200 + 80 \<le> bitmap_width calm \<and> 700 + 20 \<le> bitmap_height calm
   \<and> png_url \<noteq> []
   \<and> area_width \<lparr>area_x = 10, area_y = 10, area_width = 0, area_height = 50\<rparr> = 0
   \<and> cropScreenshotToArea calm png_url
        (Some \<lparr>area_x = 10, area_y = 10, area_width = 0, area_height = 50\<rparr>) = Inl InvalidArea"
proof -
  have ok: "cropScreenshotToArea calm png_url
      (Some \<lparr>area_x = 1200, area_y = 700, area_width = 200, area_height = 100\<rparr>)
     = Inr (\<lparr>area_x = 1200, area_y = 700, area_width = 80, area_height = 20\<rparr>,
            ''data:image/jpeg;base64,AAAA'')"
    by (rule crop_calm) (simp_all add: clampArea_def Let_def)
  have dims: "1 \<le> bitmap_width calm \<and> 1 \<le> bitmap_height calm"
    by (simp add: calm_def)
  have inside: "area_x \<lparr>area_x = 1200, area_y = 700, area_width = 80, area_height = 20\<rparr>
                  + area_width \<lparr>area_x = 1200, area_y = 700, area_width = 80, area_height = 20\<rparr>
                \<le> bitmap_width calm
              \<and> area_y \<lparr>area_x = 1200, area_y = 700, area_width = 80, area_height = 20\<rparr>
                  + area_height \<lparr>area_x = 1200, area_y = 700, area_width = 80, area_height = 20\<rparr>
                \<le> bitmap_height calm"
    using crop_clamps_or_rejects [THEN conjunct1, rule_format, OF conjI [OF ok dims]]
    by blast
  have nonempty: "png_url \<noteq> []" by (simp add: png_url_def)
  have zero: "area_width \<lparr>area_x = 10, area_y = 10, area_width = 0, area_height = 50\<rparr> = 0"
    by simp
  have rejected: "cropScreenshotToArea calm png_url
        (Some \<lparr>area_x = 10, area_y = 10, area_width = 0, area_height = 50\<rparr>) = Inl InvalidArea"
    using crop_clamps_or_rejects [THEN conjunct2, rule_format,
        OF conjI [OF nonempty disjI1 [OF zero]]] .
  from ok dims inside nonempty zero rejected show ?thesis
    by simp
qed

text \<open>
  The claim as stated fails for a negative width: the request is not rejected, and a
  rectangle one pixel wide is drawn.
\<close>

theorem crop_negative_width_counterexample:
  "cropScreenshotToArea calm png_url
      (Some \<lparr>area_x = 5, area_y = 5, area_width = - 3, area_height = 10\<rparr>)
     = Inr (\<lparr>area_x = 5, area_y = 5, area_width = 1, area_height = 10\<rparr>,
            ''data:image/jpeg;base64,AAAA'')"
  by (rule crop_calm) (simp_all add: clampArea_def Let_def)

subsection \<open>Redaction\<close>

lemma str_includes_iff:
  "str_includes s sub \<longleftrightarrow> (\<exists>pre post. s = pre @ sub @ post)"
proof (induction s)
  case Nil
  then show ?case by auto
next
  case (Cons c cs)
  have "take (length sub) (c # cs) = sub \<longleftrightarrow> (\<exists>post. c # cs = sub @ post)"
    by (metis append_eq_conv_conj append_take_drop_id)
  moreover have "(\<exists>pre post. c # cs = pre @ sub @ post)
      \<longleftrightarrow> (\<exists>post. c # cs = sub @ post) \<or> (\<exists>pre post. cs = pre @ sub @ post)"
  proof
    assume "\<exists>pre post. c # cs = pre @ sub @ post"
    then obtain pre post where e: "c # cs = pre @ sub @ post" by blast
    show "(\<exists>post. c # cs = sub @ post) \<or> (\<exists>pre post. cs = pre @ sub @ post)"
    proof (cases pre)
      case Nil
      then show ?thesis using e by auto
    next
      case (Cons p ps)
      then have "cs = ps @ sub @ post" using e by simp
      then show ?thesis by blast
    qed
  next
    assume "(\<exists>post. c # cs = sub @ post) \<or> (\<exists>pre post. cs = pre @ sub @ post)"
    then show "\<exists>pre post. c # cs = pre @ sub @ post"
    proof
      assume "\<exists>post. c # cs = sub @ post"
      then obtain post where "c # cs = [] @ sub @ post" by auto
      then show ?thesis by blast
    next
      assume "\<exists>pre post. cs = pre @ sub @ post"
      then obtain pre post where "c # cs = (c # pre) @ sub @ post" by auto
      then show ?thesis by blast
    qed
  qed
  ultimately show ?case using Cons.IH by simp
qed







subsection \<open>Texts of fields that are not sensitive\<close>

lemma trim_no_longer: "length (trim s) \<le> length s"
proof -
  have "length (dropWhile isWhiteSpace (rev (dropWhile isWhiteSpace s)))
          \<le> length (rev (dropWhile isWhiteSpace s))"
    by (rule length_dropWhile_le)
  also have "\<dots> \<le> length s"
    by (simp add: length_dropWhile_le)
  finally show ?thesis by (simp add: trim_def)
qed

text \<open>
  Claim C8, as the code has it. For a field identifier that is not sensitive:
  on an element that is no \<^verbatim>\<open>INPUT\<close>, \<^verbatim>\<open>SELECT\<close> or \<^verbatim>\<open>TEXTAREA\<close>, a text of more
  than 100 characters is cut to its first 97 characters followed by \<^verbatim>\<open>...\<close>, without
  trimming, and a text of at most 100 characters is returned trimmed; the result never
  has more than 100 characters. On a form element with a value that is not blank, the
  result is the identifier, a colon and a space, and the value, which is cut to its first
  77 characters followed by \<^verbatim>\<open>...\<close> when it has more than 100 and is otherwise unchanged
  (not trimmed); with a blank or missing value the result is the identifier alone.
\<close>

theorem non_sensitive_text:
  assumes "name = or_else (el_name el) (or_else (el_id el)
                    (or_else (el_placeholder el) (el_type el)))"
    and "\<not> SENSITIVE_PATTERNS_test name"
    and "v = (case val of None \<Rightarrow> [] | Some x \<Rightarrow> x)"
    and "body = or_else v (or_else (el_value el) (or_else (el_innerText el)
                  (or_else (el_textContent el) (or_else (el_alt el) (el_title el)))))"
    and "identifier = or_else (el_placeholder el) (or_else (el_name el)
                        (or_else (el_id el) (or_else (el_type el) ''field'')))"
  shows "getSafeText (Some el) val =
           (if el_tagName el \<in> {''INPUT'', ''SELECT'', ''TEXTAREA''}
            then (if v \<noteq> [] \<and> trim v \<noteq> []
                  then identifier @ '': '' @ (if length v > 100 then take 77 v @ ''...'' else v)
                  else identifier)
            else (if length body > 100 then take 97 body @ ''...'' else trim body))
         \<and> (el_tagName el \<notin> {''INPUT'', ''SELECT'', ''TEXTAREA''}
              \<longrightarrow> length (getSafeText (Some el) val) \<le> 100)"
proof -
  have short: "take 200 (trim body) = trim body" if "\<not> length body > 100"
    using that trim_no_longer[of body] by simp
  have eq: "getSafeText (Some el) val =
           (if el_tagName el \<in> {''INPUT'', ''SELECT'', ''TEXTAREA''}
            then (if v \<noteq> [] \<and> trim v \<noteq> []
                  then identifier @ '': '' @ (if length v > 100 then take 77 v @ ''...'' else v)
                  else identifier)
            else (if length body > 100 then take 97 body @ ''...'' else trim body))"
    using assms(2) short
    unfolding getSafeText_def assms(1,3,4,5) Let_def MAX_INPUT_LENGTH_def
    by (simp del: insert_iff)
  have "length (getSafeText (Some el) val) \<le> 100"
    if "el_tagName el \<notin> {''INPUT'', ''SELECT'', ''TEXTAREA''}"
  proof (cases "length body > 100")
    case True
    then show ?thesis unfolding eq using that by (simp del: insert_iff)
  next
    case False
    then show ?thesis unfolding eq using that trim_no_longer[of body] by (simp del: insert_iff)
  qed
  with eq show ?thesis by blast
qed


lemma empty_not_sensitive: "\<not> SENSITIVE_PATTERNS_test []"
  by (simp add: SENSITIVE_PATTERNS_test_def SENSITIVE_KEYWORDS_def toLowerCase_def)

theorem non_sensitive_text_witness:
  "\<not> SENSITIVE_PATTERNS_test []
   \<and> el_tagName (text_block ''  Hello world  '') \<notin> {''INPUT'', ''SELECT'', ''TEXTAREA''}
   \<and> getSafeText (Some (text_block ''  Hello world  '')) None = ''Hello world''
   \<and> length (getSafeText (Some (text_block ''  Hello world  '')) None) \<le> 100"
proof -
  have t: "trim ''  Hello world  '' = ''Hello world''"
    by (simp add: trim_def isWhiteSpace_def)
  have tag: "el_tagName (text_block ''  Hello world  '') \<notin> {''INPUT'', ''SELECT'', ''TEXTAREA''}"
    by (simp add: text_block_def)
  have "getSafeText (Some (text_block ''  Hello world  '')) None = ''Hello world''
        \<and> length (getSafeText (Some (text_block ''  Hello world  '')) None) \<le> 100"
    using non_sensitive_text [of "[]" "text_block ''  Hello world  ''" "[]" None
        "''  Hello world  ''" "''field''"] empty_not_sensitive t
    by (simp add: text_block_def or_else_def)
  then show ?thesis
    using empty_not_sensitive tag by blast
qed

lemma city_not_sensitive: "\<not> SENSITIVE_PATTERNS_test ''city''"
  by (simp add: SENSITIVE_PATTERNS_test_def SENSITIVE_KEYWORDS_def toLowerCase_def)

text \<open>
  The claim as stated fails: the value of a form field is not trimmed, and a text of more
  than 100 characters is cut without being trimmed, so its leading blank stays.
\<close>

theorem untrimmed_text_counterexample:
  "getSafeText (Some city_field) (Some '' Oslo '') = ''city:  Oslo ''
   \<and> getSafeText (Some (text_block (CHR '' '' # replicate 100 (CHR ''a'')))) None
       = CHR '' '' # replicate 96 (CHR ''a'') @ ''...''"
proof -
  have a: "getSafeText (Some city_field) (Some '' Oslo '') = ''city:  Oslo ''"
    using city_not_sensitive
    by (simp add: getSafeText_def city_field_def or_else_def Let_def MAX_INPUT_LENGTH_def
        trim_def isWhiteSpace_def)
  have b: "getSafeText (Some (text_block (CHR '' '' # replicate 100 (CHR ''a'')))) None
       = CHR '' '' # replicate 96 (CHR ''a'') @ ''...''"
    using empty_not_sensitive
    by (simp add: getSafeText_def text_block_def or_else_def Let_def MAX_INPUT_LENGTH_def)
  from a b show ?thesis by blast
qed

subsection \<open>The order of the rendered steps\<close>

lemma text_filter_result:
  "text_filter flt ss = Inr shown \<Longrightarrow> shown = filter (\<lambda>s. filter_matches flt s = Inr True) ss"
proof (induction ss arbitrary: shown)
  case Nil
  then show ?case by simp
next
  case (Cons s ss)
  then show ?case
    by (cases "filter_matches flt s"; cases "text_filter flt ss") auto
qed

lemma map_snd_enumerate: "map snd (enumerate n xs) = xs"
  by (simp add: enumerate_eq_zip)

lemma map_fst_enumerate: "map fst (enumerate n xs) = [n..<n + length xs]"
  by (simp add: enumerate_eq_zip)

lemma rtf_lines_from:
  "map snd (List.map_filter (\<lambda>(n, s). map_option (Pair n) (rtfStepDescription s))
      (enumerate k xs)) = List.map_filter rtfStepDescription xs"
proof (induction xs arbitrary: k)
  case Nil
  then show ?case by (simp add: List.map_filter_simps)
next
  case (Cons x xs)
  then show ?case
    by (cases "rtfStepDescription x") (simp_all add: List.map_filter_simps)
qed

text \<open>
  Claim C9, as the code has it. Neither rendering sorts. The popup lists the steps that
  pass its filters in the order of the log array, numbered from 1; the report lists the
  descriptions of the steps it shows in the order of the log array.
\<close>

theorem renderings_keep_storage_order:
  "(renderSteps steps flt = Inr shown
      \<longrightarrow> map snd shown =
            filter (\<lambda>s. popup_shows s \<and> (flt = [] \<or> filter_matches flt s = Inr True)) steps
        \<and> map fst shown = [1..<1 + length shown])
   \<and> map snd (rtfStepLines steps') =
       List.map_filter rtfStepDescription (filter rtf_shows steps')"
proof (intro conjI impI)
  assume r: "renderSteps steps flt = Inr shown"
  define ys where "ys = map snd shown"
  have s: "shown = enumerate 1 ys"
    using r unfolding ys_def
    by (auto simp: renderSteps_def Let_def map_snd_enumerate split: sum.splits if_splits)
  show "map snd shown =
            filter (\<lambda>s. popup_shows s \<and> (flt = [] \<or> filter_matches flt s = Inr True)) steps"
  proof (cases "flt = []")
    case True
    then show ?thesis using r by (auto simp: renderSteps_def map_snd_enumerate)
  next
    case False
    then have t: "text_filter flt (filter popup_shows steps) = Inr ys"
      using r unfolding ys_def
      by (auto simp: renderSteps_def Let_def map_snd_enumerate split: sum.splits)
    have "ys = filter (\<lambda>s. filter_matches flt s = Inr True) (filter popup_shows steps)"
      using t by (rule text_filter_result)
    then show ?thesis
      using False by (simp add: ys_def)
  qed
  have "map fst (enumerate 1 ys) = [1..<1 + length (enumerate 1 ys)]"
    by (simp only: map_fst_enumerate length_enumerate)
  then show "map fst shown = [1..<1 + length shown]"
    unfolding s .
next
  show "map snd (rtfStepLines steps') =
       List.map_filter rtfStepDescription (filter rtf_shows steps')"
    by (simp add: rtfStepLines_def Let_def rtf_lines_from)
qed

theorem renderings_keep_storage_order_witness:
  "renderSteps [press_step ''Tab'' 1000, press_step ''Enter'' 2000] []
     = Inr [(1, press_step ''Tab'' 1000), (2, press_step ''Enter'' 2000)]
   \<and> map snd (rtfStepLines [press_step ''Tab'' 1000, press_step ''Enter'' 2000])
     = [''User pressed Tab.'', ''User pressed Enter.'']"
proof -
  have r: "renderSteps [press_step ''Tab'' 1000, press_step ''Enter'' 2000] []
     = Inr [(1, press_step ''Tab'' 1000), (2, press_step ''Enter'' 2000)]"
    by (simp add: renderSteps_def popup_shows_def press_step_def action_of_def)
  have d: "rtfStepDescription (press_step ''Tab'' 1000) = Some ''User pressed Tab.''"
    "rtfStepDescription (press_step ''Enter'' 2000) = Some ''User pressed Enter.''"
    by (simp_all add: rtfStepDescription_def press_step_def action_of_def value_of_def
        opt_or_def or_else_def Let_def)
  have s: "rtf_shows (press_step ''Tab'' 1000)" "rtf_shows (press_step ''Enter'' 2000)"
    by (simp_all add: rtf_shows_def press_step_def)
  have shown: "map fst [(1::nat, press_step ''Tab'' 1000), (2, press_step ''Enter'' 2000)]
                 = [1..<1 + length [(1::nat, press_step ''Tab'' 1000), (2, press_step ''Enter'' 2000)]]"
    using renderings_keep_storage_order [THEN conjunct1, rule_format, OF r] by blast
  have "map snd (rtfStepLines [press_step ''Tab'' 1000, press_step ''Enter'' 2000])
     = List.map_filter rtfStepDescription
         (filter rtf_shows [press_step ''Tab'' 1000, press_step ''Enter'' 2000])"
    using renderings_keep_storage_order [THEN conjunct2] .
  then have "map snd (rtfStepLines [press_step ''Tab'' 1000, press_step ''Enter'' 2000])
     = [''User pressed Tab.'', ''User pressed Enter.'']"
    by (simp add: d s List.map_filter_simps)
  with r show ?thesis by blast
qed

text \<open>
  The claim as stated fails: for a log whose second step carries the earlier timestamp,
  both renderings show the steps in the order of the array, the later one first.
\<close>

theorem renderings_unsorted_counterexample:
  "renderSteps [press_step ''Enter'' 2000, press_step ''Tab'' 1000] []
     = Inr [(1, press_step ''Enter'' 2000), (2, press_step ''Tab'' 1000)]
   \<and> rtfStepLines [press_step ''Enter'' 2000, press_step ''Tab'' 1000]
     = [(1, ''User pressed Enter.''), (2, ''User pressed Tab.'')]
   \<and> \<not> time_ordered [press_step ''Enter'' 2000, press_step ''Tab'' 1000]"
proof -
  have r: "renderSteps [press_step ''Enter'' 2000, press_step ''Tab'' 1000] []
     = Inr [(1, press_step ''Enter'' 2000), (2, press_step ''Tab'' 1000)]"
    by (simp add: renderSteps_def popup_shows_def press_step_def action_of_def)
  have d: "rtfStepDescription (press_step ''Tab'' 1000) = Some ''User pressed Tab.''"
    "rtfStepDescription (press_step ''Enter'' 2000) = Some ''User pressed Enter.''"
    by (simp_all add: rtfStepDescription_def press_step_def action_of_def value_of_def
        opt_or_def or_else_def Let_def)
  have s: "rtf_shows (press_step ''Tab'' 1000)" "rtf_shows (press_step ''Enter'' 2000)"
    by (simp_all add: rtf_shows_def press_step_def)
  have l: "rtfStepLines [press_step ''Enter'' 2000, press_step ''Tab'' 1000]
     = [(1, ''User pressed Enter.''), (2, ''User pressed Tab.'')]"
    by (simp add: rtfStepLines_def d s List.map_filter_simps)
  have t: "\<not> time_ordered [press_step ''Enter'' 2000, press_step ''Tab'' 1000]"
    by (simp add: time_ordered_def press_step_def)
  from r l t show ?thesis by blast
qed

end
